theory Spec2Isabelle
  imports Main "HOL-Library.AList"
begin

section \<open>JavaScript values\<close>

text \<open>
  The values that travel through the logger as message arguments and as the fields of
  the \<open>extra\<close> object: primitives and plain objects. Numbers are the integral ones;
  a plain object is the list of its own enumerable properties in insertion order.
\<close>

datatype jsval =
    JUndefined
  | JNull
  | JBool bool
  | JNum int
  | JStr string
  | JObj "(string \<times> jsval) list"

text \<open>Exceptions are \<open>Error\<close> objects; only their class and message are kept.\<close>

datatype error = Error string | TypeError string | RangeError string

fun error_message :: "error \<Rightarrow> string" where
  "error_message (Error m) = m"
| "error_message (TypeError m) = m"
| "error_message (RangeError m) = m"

text \<open>A \<open>Date\<close> is its time value: milliseconds since the epoch.\<close>

type_synonym Date = int

subsection \<open>Decimal numerals\<close>

definition digit :: "nat \<Rightarrow> char" where
  "digit d = ''0123456789'' ! d"

fun digits :: "nat \<Rightarrow> string" where
  "digits n = (if n < 10 then [digit n] else digits (n div 10) @ [digit (n mod 10)])"

declare digits.simps [simp del]

text \<open>\<open>String(n)\<close> for an integral number.\<close>

definition String_of_int :: "int \<Rightarrow> string" where
  "String_of_int i = (if i < 0 then CHR ''-'' # digits (nat (- i)) else digits (nat i))"

subsection \<open>Conversions and property access\<close>

text \<open>\<open>String(v)\<close>, as a template literal or \<open>String.prototype.replace\<close> applies it.\<close>

fun ToString :: "jsval \<Rightarrow> string" where
  "ToString JUndefined = ''undefined''"
| "ToString JNull = ''null''"
| "ToString (JBool b) = (if b then ''true'' else ''false'')"
| "ToString (JNum i) = String_of_int i"
| "ToString (JStr s) = s"
| "ToString (JObj kvs) = ''[object Object]''"





section \<open>Log levels and records (Logger.js)\<close>

definition DEBUG :: int where "DEBUG = 0"
definition INFO :: int where "INFO = 1"
definition WARNING :: int where "WARNING = 2"
definition ERROR :: int where "ERROR = 3"
definition CRITICAL :: int where "CRITICAL = 4"

definition getLogLevelName :: "int \<Rightarrow> string" where
  "getLogLevelName lv =
     (if lv = DEBUG then ''DEBUG''
      else if lv = INFO then ''INFO''
      else if lv = WARNING then ''WARNING''
      else if lv = ERROR then ''ERROR''
      else if lv = CRITICAL then ''CRITICAL''
      else ''UNKNOWN'')"

record LogRecord =
  name :: string
  level :: int
  message :: string
  timestamp :: Date
  extra :: jsval

section \<open>The JSON formatter (formatters.js)\<close>


section \<open>The environment\<close>

text \<open>
  What the handlers act on: the files of the log directory (path, content and
  modification time, in directory order), the two standard streams as the chunks written
  to them, and the wall clock as the sequence of readings that successive \<open>new Date()\<close>
  calls return. File operations are synchronous and succeed whenever the path they need
  is there. \<open>rotated\<close> is a ghost trace: the file name of every \<open>rotate()\<close> call.
\<close>

record fnode =
  content :: string
  mtime :: Date

type_synonym fs = "(string \<times> fnode) list"

record env =
  files :: fs
  stdout :: "string list"
  stderr :: "string list"
  clock :: "nat \<Rightarrow> Date"
  ticks :: nat
  rotated :: "string list"

definition now :: "'e env_scheme \<Rightarrow> Date" where
  "now e = clock e (ticks e)"

definition new_Date :: "'e env_scheme \<Rightarrow> Date \<times> 'e env_scheme" where
  "new_Date e = (now e, e\<lparr>ticks := Suc (ticks e)\<rparr>)"

datatype std_stream = Stdout | Stderr

definition stream_write :: "std_stream \<Rightarrow> string \<Rightarrow> 'e env_scheme \<Rightarrow> 'e env_scheme" where
  "stream_write s chunk e =
     (case s of Stdout \<Rightarrow> e\<lparr>stdout := stdout e @ [chunk]\<rparr>
              | Stderr \<Rightarrow> e\<lparr>stderr := stderr e @ [chunk]\<rparr>)"

text \<open>\<open>console.error(line)\<close> prints the line to the standard error stream.\<close>

definition console_error :: "string \<Rightarrow> 'e env_scheme \<Rightarrow> 'e env_scheme" where
  "console_error line e = stream_write Stderr (line @ [CHR 0x0A]) e"

definition existsSync :: "fs \<Rightarrow> string \<Rightarrow> bool" where
  "existsSync fs p = (map_of fs p \<noteq> None)"

definition unlinkSync :: "fs \<Rightarrow> string \<Rightarrow> fs" where
  "unlinkSync fs p = AList.delete p fs"

text \<open>
  \<open>fs.renameSync(src, dst)\<close> replaces \<open>dst\<close>. The handlers call it under an
  \<open>existsSync(src)\<close> test only; without the source file nothing is moved.
\<close>

definition renameSync :: "fs \<Rightarrow> string \<Rightarrow> string \<Rightarrow> fs" where
  "renameSync fs src dst =
     (case map_of fs src of
        None \<Rightarrow> fs
      | Some node \<Rightarrow> AList.update dst node (AList.delete src fs))"

datatype open_flags = FlagA | FlagW

text \<open>
  \<open>fs.createWriteStream(path, {flags})\<close>: \<open>'a'\<close> creates a missing file and keeps an
  existing one, \<open>'w'\<close> creates or truncates.
\<close>

definition createWriteStream :: "Date \<Rightarrow> string \<Rightarrow> open_flags \<Rightarrow> fs \<Rightarrow> fs" where
  "createWriteStream t p flags fs =
     (case flags of
        FlagA \<Rightarrow> (if existsSync fs p then fs else fs @ [(p, \<lparr>content = [], mtime = t\<rparr>)])
      | FlagW \<Rightarrow> AList.update p \<lparr>content = [], mtime = t\<rparr> fs)"

definition write_file :: "Date \<Rightarrow> string \<Rightarrow> string \<Rightarrow> fs \<Rightarrow> fs" where
  "write_file t p chunk fs =
     (case map_of fs p of
        None \<Rightarrow> fs @ [(p, \<lparr>content = chunk, mtime = t\<rparr>)]
      | Some node \<Rightarrow> AList.update p \<lparr>content = content node @ chunk, mtime = t\<rparr> fs)"

section \<open>Handlers (handlers.js)\<close>

text \<open>
  A formatter is the capability \<open>format(record)\<close>: the rendered string, or the error it
  throws. The text renderers are not modelled; the one that \<open>Handler.format\<close> installs
  when none is set, \<open>new SimpleFormatter()\<close>, is the parameter \<open>simple\<close> below.
  \<open>hlevel\<close> is the field \<open>level\<close> of a handler.
\<close>

type_synonym Formatter = "LogRecord \<Rightarrow> error + string"

record Handler =
  formatter :: "Formatter option"
  hlevel :: "int option"

definition Handler_format ::
  "Formatter \<Rightarrow> 'a Handler_scheme \<Rightarrow> LogRecord \<Rightarrow> 'a Handler_scheme \<times> (error + string)" where
  "Handler_format simple h record =
     (case formatter h of
        None \<Rightarrow> (h\<lparr>formatter := Some simple\<rparr>, simple record)
      | Some f \<Rightarrow> (h, f record))"

text \<open>
  Every \<open>emit\<close> returns the handler and the environment as it leaves them, and the error
  it threw, if any: what it changed before throwing stays changed.
\<close>

subsection \<open>ConsoleHandler\<close>

record ConsoleHandler = Handler +
  stream :: "std_stream option"

definition ConsoleHandler_emit ::
  "Formatter \<Rightarrow> ConsoleHandler \<Rightarrow> 'e env_scheme \<Rightarrow> LogRecord
     \<Rightarrow> (ConsoleHandler \<times> 'e env_scheme) \<times> error option" where
  "ConsoleHandler_emit simple h e record =
     (let s = (case stream h of
                 None \<Rightarrow> (if level record \<ge> 3 then Stderr else Stdout)
               | Some s \<Rightarrow> s);
          h1 = h\<lparr>stream := Some s\<rparr>
      in case Handler_format simple h1 record of
           (h2, Inl err) \<Rightarrow> ((h2, e), Some err)
         | (h2, Inr formatted) \<Rightarrow> ((h2, stream_write s (formatted @ [CHR 0x0A]) e), None))"

subsection \<open>FileHandler\<close>

text \<open>
  \<open>file_stream\<close> is the field \<open>_file\<close>: the open write stream, as its \<open>bytesWritten\<close>,
  the bytes written through it since it was opened. The field \<open>encoding\<close> plays no part
  here: strings are their bytes.
\<close>

record FileHandler = Handler +
  filename :: string
  mode :: open_flags
  file_stream :: "nat option"

definition FileHandler_openFile ::
  "'a FileHandler_scheme \<Rightarrow> 'e env_scheme \<Rightarrow> 'a FileHandler_scheme \<times> 'e env_scheme" where
  "FileHandler_openFile h e =
     (case file_stream h of
        Some n \<Rightarrow> (h, e)
      | None \<Rightarrow> (h\<lparr>file_stream := Some 0\<rparr>,
                 e\<lparr>files := createWriteStream (now e) (filename h) (mode h) (files e)\<rparr>))"

definition FileHandler_emit ::
  "Formatter \<Rightarrow> 'a FileHandler_scheme \<Rightarrow> 'e env_scheme \<Rightarrow> LogRecord
     \<Rightarrow> ('a FileHandler_scheme \<times> 'e env_scheme) \<times> error option" where
  "FileHandler_emit simple h e record =
     (case FileHandler_openFile h e of
        (h1, e1) \<Rightarrow>
          (case Handler_format simple h1 record of
             (h2, Inl err) \<Rightarrow> ((h2, e1), Some err)
           | (h2, Inr formatted) \<Rightarrow>
               (let chunk = formatted @ [CHR 0x0A]
                in ((h2\<lparr>file_stream := map_option (\<lambda>n. n + length chunk) (file_stream h2)\<rparr>,
                     e1\<lparr>files := write_file (now e1) (filename h2) chunk (files e1)\<rparr>),
                    None))))"

definition FileHandler_close :: "'a FileHandler_scheme \<Rightarrow> 'a FileHandler_scheme" where
  "FileHandler_close h = h\<lparr>file_stream := None\<rparr>"

subsection \<open>RotatingFileHandler\<close>

record RotatingFileHandler = FileHandler +
  maxBytes :: int
  backupCount :: int
  maxFiles :: int

text \<open>The template literal \<open>`${filename}.${i}`\<close>.\<close>

definition backup_path :: "string \<Rightarrow> int \<Rightarrow> string" where
  "backup_path fname i = fname @ ''.'' @ String_of_int i"

text \<open>
  The loop \<open>for (let i = backupCount - 1; i > 0; i--)\<close> of \<open>rotate\<close>, from the value
  of \<open>i\<close> it is entered with.
\<close>

function rotate_backups :: "string \<Rightarrow> int \<Rightarrow> fs \<Rightarrow> fs" where
  "rotate_backups fname i fs =
     (if i > 0
      then rotate_backups fname (i - 1)
             (let src = backup_path fname i; dst = backup_path fname (i + 1)
              in if existsSync fs src
                 then renameSync (if existsSync fs dst then unlinkSync fs dst else fs) src dst
                 else fs)
      else fs)"
  by pat_completeness auto
termination
  by (relation "measure (\<lambda>(fname, i, fs). nat i)") auto

declare rotate_backups.simps [simp del]

text \<open>
  \<open>_getMatchingFiles\<close>: the directory entries whose name starts with the base name and
  a dot, here with their nodes.
\<close>

definition getMatchingFiles :: "string \<Rightarrow> fs \<Rightarrow> fs" where
  "getMatchingFiles fname fs =
     filter (\<lambda>(p, node). take (length fname + 1) p = fname @ ''.'') fs"

text \<open>
  Deleting all but the \<open>keep\<close> most recently modified matching files, oldest first;
  \<open>Array.prototype.sort\<close> is stable, as \<open>sort_key\<close> is.
\<close>

definition remove_oldest :: "int \<Rightarrow> string \<Rightarrow> fs \<Rightarrow> fs" where
  "remove_oldest keep fname fs =
     (let matching = sort_key (\<lambda>(p, node). mtime node) (getMatchingFiles fname fs)
      in if int (length matching) > keep
         then fold (\<lambda>(p, node) fs'. unlinkSync fs' p)
                (take (nat (int (length matching) - keep)) matching) fs
         else fs)"

definition RotatingFileHandler_cleanupOldFiles :: "'a RotatingFileHandler_scheme \<Rightarrow> fs \<Rightarrow> fs" where
  "RotatingFileHandler_cleanupOldFiles h fs = remove_oldest (maxFiles h) (filename h) fs"

definition RotatingFileHandler_rotate ::
  "'a RotatingFileHandler_scheme \<Rightarrow> 'e env_scheme
     \<Rightarrow> 'a RotatingFileHandler_scheme \<times> 'e env_scheme" where
  "RotatingFileHandler_rotate h e =
     (let fs1 = rotate_backups (filename h) (backupCount h - 1) (files e);
          fs2 = (if existsSync fs1 (filename h)
                 then renameSync fs1 (filename h) (backup_path (filename h) 1)
                 else fs1);
          fs3 = RotatingFileHandler_cleanupOldFiles h fs2
      in (h\<lparr>file_stream := None\<rparr>,
          e\<lparr>files := fs3, rotated := rotated e @ [filename h]\<rparr>))"

definition RotatingFileHandler_emit ::
  "Formatter \<Rightarrow> 'a RotatingFileHandler_scheme \<Rightarrow> 'e env_scheme \<Rightarrow> LogRecord
     \<Rightarrow> ('a RotatingFileHandler_scheme \<times> 'e env_scheme) \<times> error option" where
  "RotatingFileHandler_emit simple h e record =
     (case (if (case file_stream h of None \<Rightarrow> False | Some n \<Rightarrow> int n \<ge> maxBytes h)
            then RotatingFileHandler_rotate h e
            else (h, e)) of
        (h1, e1) \<Rightarrow> FileHandler_emit simple h1 e1 record)"

subsection \<open>TimedRotatingFileHandler\<close>

text \<open>
  The methods of \<open>Date\<close> that read the local calendar, given by the platform.
  \<open>toDateString\<close> renders the calendar date of a time (\<open>Thu Jan 01 1970\<close>): two times
  fall on the same calendar date iff it renders them alike.
\<close>

record DateFns =
  toDateString :: "Date \<Rightarrow> string"
  getFullYear :: "Date \<Rightarrow> int"
  getMonth :: "Date \<Rightarrow> int"
  getDate :: "Date \<Rightarrow> int"
  getHours :: "Date \<Rightarrow> int"
  getMinutes :: "Date \<Rightarrow> int"
  getSeconds :: "Date \<Rightarrow> int"

text \<open>
  \<open>rwhen\<close>, \<open>tbackupCount\<close> and \<open>tmaxFiles\<close> are the fields \<open>when\<close>, \<open>backupCount\<close>
  and \<open>maxFiles\<close> of this class.
\<close>

record TimedRotatingFileHandler = FileHandler +
  rwhen :: string
  interval :: int
  tbackupCount :: int
  tmaxFiles :: int
  lastRotation :: Date

text \<open>\<open>s.padStart(2, '0')\<close>.\<close>

definition padStart2 :: "string \<Rightarrow> string" where
  "padStart2 s = replicate (2 - length s) (CHR ''0'') @ s"

definition formatTimestamp :: "DateFns \<Rightarrow> Date \<Rightarrow> string" where
  "formatTimestamp D d =
     String_of_int (getFullYear D d)
       @ padStart2 (String_of_int (getMonth D d + 1))
       @ padStart2 (String_of_int (getDate D d))
       @ ''_''
       @ padStart2 (String_of_int (getHours D d))
       @ padStart2 (String_of_int (getMinutes D d))
       @ padStart2 (String_of_int (getSeconds D d))"

definition shouldRotate :: "DateFns \<Rightarrow> 'a TimedRotatingFileHandler_scheme \<Rightarrow> Date \<Rightarrow> bool" where
  "shouldRotate D h ts =
     (if rwhen h = ''midnight'' then toDateString D ts \<noteq> toDateString D (lastRotation h)
      else if rwhen h = ''hour'' then ts - lastRotation h \<ge> 3600 * 1000 * interval h
      else if rwhen h = ''minute'' then ts - lastRotation h \<ge> 60 * 1000 * interval h
      else False)"

definition TimedRotatingFileHandler_removeOldBackups ::
  "'a TimedRotatingFileHandler_scheme \<Rightarrow> fs \<Rightarrow> fs" where
  "TimedRotatingFileHandler_removeOldBackups h fs =
     remove_oldest (min (tbackupCount h) (tmaxFiles h)) (filename h) fs"

definition TimedRotatingFileHandler_rotate ::
  "DateFns \<Rightarrow> 'a TimedRotatingFileHandler_scheme \<Rightarrow> 'e env_scheme
     \<Rightarrow> 'a TimedRotatingFileHandler_scheme \<times> 'e env_scheme" where
  "TimedRotatingFileHandler_rotate D h e =
     (let backupName = filename h @ ''.'' @ formatTimestamp D (lastRotation h);
          fs1 = (if existsSync (files e) (filename h)
                 then renameSync (files e) (filename h) backupName
                 else files e);
          fs2 = TimedRotatingFileHandler_removeOldBackups h fs1
      in case new_Date (e\<lparr>files := fs2, rotated := rotated e @ [filename h]\<rparr>) of
           (d, e1) \<Rightarrow> (h\<lparr>file_stream := None, lastRotation := d\<rparr>, e1))"

definition TimedRotatingFileHandler_emit ::
  "DateFns \<Rightarrow> Formatter \<Rightarrow> 'a TimedRotatingFileHandler_scheme \<Rightarrow> 'e env_scheme \<Rightarrow> LogRecord
     \<Rightarrow> ('a TimedRotatingFileHandler_scheme \<times> 'e env_scheme) \<times> error option" where
  "TimedRotatingFileHandler_emit D simple h e record =
     (case (if shouldRotate D h (timestamp record)
            then TimedRotatingFileHandler_rotate D h e
            else (h, e)) of
        (h1, e1) \<Rightarrow> FileHandler_emit simple h1 e1 record)"

subsection \<open>MemoryHandler\<close>

record MemoryHandler = Handler +
  capacity :: int
  buffer :: "LogRecord list"

definition MemoryHandler_emit :: "MemoryHandler \<Rightarrow> LogRecord \<Rightarrow> MemoryHandler" where
  "MemoryHandler_emit h record =
     (let b = buffer h @ [record]
      in h\<lparr>buffer := (if int (length b) > capacity h then tl b else b)\<rparr>)"

subsection \<open>Handler objects\<close>

text \<open>
  A handler object is an instance of one of the classes. \<open>HBase\<close> is the base class
  itself, whose \<open>emit\<close> throws; \<open>HNull\<close> is \<open>NullHandler\<close>.
\<close>

datatype handler =
    HBase Handler
  | HConsole ConsoleHandler
  | HFile FileHandler
  | HRotating RotatingFileHandler
  | HTimed TimedRotatingFileHandler
  | HNull Handler
  | HMemory MemoryHandler

fun handler_level :: "handler \<Rightarrow> int option" where
  "handler_level (HBase h) = hlevel h"
| "handler_level (HConsole h) = hlevel h"
| "handler_level (HFile h) = hlevel h"
| "handler_level (HRotating h) = hlevel h"
| "handler_level (HTimed h) = hlevel h"
| "handler_level (HNull h) = hlevel h"
| "handler_level (HMemory h) = hlevel h"

text \<open>\<open>handler.emit(record)\<close>, by the class of the object.\<close>

fun emit ::
  "DateFns \<Rightarrow> Formatter \<Rightarrow> handler \<Rightarrow> 'e env_scheme \<Rightarrow> LogRecord
     \<Rightarrow> (handler \<times> 'e env_scheme) \<times> error option" where
  "emit D simple (HBase h) e record =
     ((HBase h, e), Some (Error ''emit method must be implemented''))"
| "emit D simple (HConsole h) e record =
     (case ConsoleHandler_emit simple h e record of
        ((h', e'), r) \<Rightarrow> ((HConsole h', e'), r))"
| "emit D simple (HFile h) e record =
     (case FileHandler_emit simple h e record of
        ((h', e'), r) \<Rightarrow> ((HFile h', e'), r))"
| "emit D simple (HRotating h) e record =
     (case RotatingFileHandler_emit simple h e record of
        ((h', e'), r) \<Rightarrow> ((HRotating h', e'), r))"
| "emit D simple (HTimed h) e record =
     (case TimedRotatingFileHandler_emit D simple h e record of
        ((h', e'), r) \<Rightarrow> ((HTimed h', e'), r))"
| "emit D simple (HNull h) e record = ((HNull h, e), None)"
| "emit D simple (HMemory h) e record = ((HMemory (MemoryHandler_emit h record), e), None)"

text \<open>\<open>Handler.filter\<close> and \<open>Handler.handle\<close>, which every class inherits.\<close>

definition Handler_filter :: "handler \<Rightarrow> LogRecord \<Rightarrow> bool" where
  "Handler_filter h record =
     (case handler_level h of None \<Rightarrow> True | Some lv \<Rightarrow> level record \<ge> lv)"

definition Handler_handle ::
  "DateFns \<Rightarrow> Formatter \<Rightarrow> handler \<Rightarrow> 'e env_scheme \<Rightarrow> LogRecord \<Rightarrow> handler \<times> 'e env_scheme" where
  "Handler_handle D simple h e record =
     (if Handler_filter h record
      then (case emit D simple h e record of
              ((h', e'), None) \<Rightarrow> (h', e')
            | ((h', e'), Some err) \<Rightarrow>
                (h', console_error (''Handler error: '' @ error_message err) e'))
      else (h, e))"

section \<open>Loggers (Logger.js)\<close>

text \<open>
  Loggers and handlers are objects with identity: a logger is its index in \<open>loggers\<close>,
  a handler its index in \<open>hobjs\<close>, and the lists \<open>handlers\<close>, \<open>parent\<close> and \<open>children\<close>
  hold such references. \<open>lname\<close> and \<open>llevel\<close> are the fields \<open>name\<close> and \<open>level\<close> of
  a logger. \<open>emit_calls\<close> is a ghost trace: every call
  \<open>handler.emit(record)\<close> that \<open>Logger._log\<close> makes, in order, whether it returns or
  throws.
\<close>

record Logger =
  lname :: string
  llevel :: int
  handlers :: "nat list"
  propagate :: bool
  parent :: "nat option"
  children :: "(string \<times> nat) list"

record world = env +
  loggers :: "Logger list"
  hobjs :: "handler list"
  emit_calls :: "(nat \<times> LogRecord) list"

text \<open>\<open>new Logger(name)\<close>.\<close>

definition new_Logger :: "string \<Rightarrow> Logger" where
  "new_Logger nm =
     \<lparr>lname = nm, llevel = INFO, handlers = [], propagate = True, parent = None, children = []\<rparr>"

definition update_logger :: "nat \<Rightarrow> (Logger \<Rightarrow> Logger) \<Rightarrow> world \<Rightarrow> world" where
  "update_logger this f w = w\<lparr>loggers := (loggers w)[this := f (loggers w ! this)]\<rparr>"

definition Logger_setLevel :: "nat \<Rightarrow> int \<Rightarrow> world \<Rightarrow> world" where
  "Logger_setLevel this lv w = update_logger this (\<lambda>L. L\<lparr>llevel := lv\<rparr>) w"

definition Logger_addHandler :: "nat \<Rightarrow> nat \<Rightarrow> world \<Rightarrow> world" where
  "Logger_addHandler this h w = update_logger this (\<lambda>L. L\<lparr>handlers := handlers L @ [h]\<rparr>) w"

text \<open>\<open>indexOf\<close> finds the first occurrence and \<open>splice(index, 1)\<close> removes it.\<close>

definition Logger_removeHandler :: "nat \<Rightarrow> nat \<Rightarrow> world \<Rightarrow> world" where
  "Logger_removeHandler this h w = update_logger this (\<lambda>L. L\<lparr>handlers := remove1 h (handlers L)\<rparr>) w"

definition Logger_clearHandlers :: "nat \<Rightarrow> world \<Rightarrow> world" where
  "Logger_clearHandlers this w = update_logger this (\<lambda>L. L\<lparr>handlers := []\<rparr>) w"

text \<open>
  \<open>getChild(name)\<close> on the logger \<open>this\<close>, an index into \<open>loggers\<close>: the world it leaves
  and the child it returns. A new logger is allocated at the end of \<open>loggers\<close>.
\<close>

definition Logger_getChild :: "nat \<Rightarrow> string \<Rightarrow> world \<Rightarrow> world \<times> nat" where
  "Logger_getChild this nm w =
     (let L = loggers w ! this
      in case map_of (children L) nm of
           Some c \<Rightarrow> (w, c)
         | None \<Rightarrow>
             (let c = length (loggers w);
                  child = (new_Logger (lname L @ ''.'' @ nm))
                            \<lparr>parent := Some this, llevel := llevel L, handlers := handlers L\<rparr>;
                  L' = L\<lparr>children := AList.update nm c (children L)\<rparr>
              in (w\<lparr>loggers := (loggers w)[this := L'] @ [child]\<rparr>, c)))"

text \<open>
  \<open>message.replace(/%s/g, () => args.shift())\<close>: the new string and what is left of
  \<open>args\<close>, which the callback shortens in place. \<open>shift\<close> on an empty array returns
  \<open>undefined\<close>.
\<close>

fun replace_percent_s :: "string \<Rightarrow> jsval list \<Rightarrow> string \<times> jsval list" where
  "replace_percent_s [] args = ([], args)"
| "replace_percent_s (c # cs) args =
     (if c = CHR ''%'' \<and> cs \<noteq> [] \<and> hd cs = CHR ''s''
      then (let a = (case args of [] \<Rightarrow> JUndefined | a # as \<Rightarrow> a)
            in case replace_percent_s (tl cs) (tl args) of
                 (out, args') \<Rightarrow> (ToString a @ out, args'))
      else (case replace_percent_s cs args of (out, args') \<Rightarrow> (c # out, args')))"

text \<open>
  One round of the loop over \<open>this.handlers\<close>: \<open>handler.emit(record)\<close> inside
  \<open>try\<close>/\<open>catch\<close>. An entry of the list that is no handler object makes the call itself
  throw a \<open>TypeError\<close>, which the same \<open>catch\<close> reports.
\<close>

definition call_emit :: "DateFns \<Rightarrow> Formatter \<Rightarrow> world \<Rightarrow> nat \<Rightarrow> LogRecord \<Rightarrow> world" where
  "call_emit D simple w h record =
     (let w0 = w\<lparr>emit_calls := emit_calls w @ [(h, record)]\<rparr>
      in if h < length (hobjs w0)
         then (case emit D simple (hobjs w0 ! h) w0 record of
                 ((h', w1), None) \<Rightarrow> w1\<lparr>hobjs := (hobjs w1)[h := h']\<rparr>
               | ((h', w1), Some err) \<Rightarrow>
                   console_error (''Handler error: '' @ error_message err)
                     (w1\<lparr>hobjs := (hobjs w1)[h := h']\<rparr>))
         else console_error ''Handler error: handler.emit is not a function'' w0)"

fun send_to_handlers :: "DateFns \<Rightarrow> Formatter \<Rightarrow> world \<Rightarrow> nat list \<Rightarrow> LogRecord \<Rightarrow> world" where
  "send_to_handlers D simple w [] record = w"
| "send_to_handlers D simple w (h # hs) record =
     send_to_handlers D simple (call_emit D simple w h record) hs record"

text \<open>
  The record that \<open>_log\<close> builds on the logger \<open>L\<close>, the arguments left for the parent,
  and the environment after the clock was read.
\<close>

definition make_record ::
  "Logger \<Rightarrow> int \<Rightarrow> string \<Rightarrow> jsval list \<Rightarrow> world \<Rightarrow> LogRecord \<times> jsval list \<times> world" where
  "make_record L lv msg args w =
     (case (if args \<noteq> [] then replace_percent_s msg args else (msg, args)) of
        (formattedMessage, args') \<Rightarrow>
          (case new_Date w of
             (d, w1) \<Rightarrow>
               (\<lparr>name = lname L, level = lv, message = formattedMessage, timestamp = d,
                 extra = (case args' of [] \<Rightarrow> JObj [] | a # as \<Rightarrow> a)\<rparr>,
                args', w1)))"

text \<open>
  \<open>_log(level, message, ...args)\<close> on the logger \<open>this\<close>. The first argument bounds the
  depth of the recursion into the parents, as the call stack does: the call that exceeds
  it throws a \<open>RangeError\<close>, which nothing catches.
\<close>

fun Logger_log ::
  "DateFns \<Rightarrow> Formatter \<Rightarrow> nat \<Rightarrow> world \<Rightarrow> nat \<Rightarrow> int \<Rightarrow> string \<Rightarrow> jsval list \<Rightarrow> error + world" where
  "Logger_log D simple 0 w this lv msg args = Inl (RangeError ''Maximum call stack size exceeded'')"
| "Logger_log D simple (Suc depth) w this lv msg args =
     (if this \<ge> length (loggers w) then Inl (TypeError ''this.parent._log is not a function'')
      else let L = loggers w ! this
           in if lv < llevel L then Inr w
              else (case make_record L lv msg args w of
                      (record, args', w1) \<Rightarrow>
                        (let w2 = send_to_handlers D simple w1 (handlers L) record
                         in if propagate L
                            then (case parent L of
                                    None \<Rightarrow> Inr w2
                                  | Some p \<Rightarrow> Logger_log D simple depth w2 p lv msg args')
                            else Inr w2)))"

section \<open>Sample objects\<close>

text \<open>
  A platform calendar for the examples: UTC, within January 1970, which the sample times
  stay in.
\<close>

definition ex_dates :: DateFns where
  "ex_dates =
     \<lparr>toDateString = (\<lambda>d. ''Jan '' @ String_of_int (d div 86400000 + 1) @ '' 1970''),
      getFullYear = (\<lambda>d. 1970),
      getMonth = (\<lambda>d. 0),
      getDate = (\<lambda>d. d div 86400000 + 1),
      getHours = (\<lambda>d. (d div 3600000) mod 24),
      getMinutes = (\<lambda>d. (d div 60000) mod 60),
      getSeconds = (\<lambda>d. (d div 1000) mod 60)\<rparr>"

definition ex_simple :: Formatter where
  "ex_simple record = Inr (getLogLevelName (level record) @ '' '' @ message record)"

definition ex_memory :: handler where
  "ex_memory = HMemory \<lparr>formatter = None, hlevel = None, capacity = 1000, buffer = []\<rparr>"

text \<open>
  One logger \<open>app\<close> at threshold \<open>WARNING\<close> with a memory handler, and its child
  \<open>app.db\<close> at threshold \<open>DEBUG\<close> with no handler of its own.
\<close>

definition ex_world :: world where
  "ex_world =
     \<lparr>files = [], stdout = [], stderr = [], clock = (\<lambda>n. int n), ticks = 0, rotated = [],
      loggers = [(new_Logger ''app'')\<lparr>llevel := WARNING, handlers := [0],
                                       children := [(''db'', 1)]\<rparr>,
                 (new_Logger ''app.db'')\<lparr>llevel := DEBUG, parent := Some 0\<rparr>],
      hobjs = [ex_memory],
      emit_calls = []\<rparr>"

section \<open>The propagation chain\<close>

text \<open>
  The loggers on which a \<open>_log\<close> call at level \<open>lv\<close> on \<open>this\<close> builds a record and
  calls its handlers, in order: \<open>this\<close> if the level passes its threshold, then its
  parent if \<open>this\<close> propagates and the level passes the parent's threshold, and so on
  upwards. \<open>depth\<close> bounds the walk as it bounds \<open>Logger_log\<close>.
\<close>

fun dispatching :: "Logger list \<Rightarrow> nat \<Rightarrow> nat \<Rightarrow> int \<Rightarrow> nat list" where
  "dispatching ls 0 this lv = []"
| "dispatching ls (Suc depth) this lv =
     (if this \<ge> length ls then []
      else let L = ls ! this
           in if lv < llevel L then []
              else this # (if propagate L
                           then (case parent L of
                                   None \<Rightarrow> []
                                 | Some p \<Rightarrow> dispatching ls depth p lv)
                           else []))"

text \<open>The records that the handler \<open>h\<close> was given in a trace of \<open>emit\<close> calls.\<close>

definition calls_to :: "nat \<Rightarrow> (nat \<times> LogRecord) list \<Rightarrow> LogRecord list" where
  "calls_to h cs = map snd (filter (\<lambda>(h', r). h' = h) cs)"

text \<open>
  Every parent was allocated before its child, as \<open>new Logger\<close> and \<open>getChild\<close> leave
  it: a parent reference points to a smaller index.
\<close>

definition parents_below :: "Logger list \<Rightarrow> bool" where
  "parents_below ls =
     list_all (\<lambda>(l, L). case parent L of None \<Rightarrow> True | Some p \<Rightarrow> p < l) (enumerate 0 ls)"

text \<open>
  The error sink of \<open>setupMultiHandlerLogger\<close>, a handler with
  \<open>setLevel(LogLevel.ERROR)\<close>, here a memory handler, on a logger at threshold \<open>DEBUG\<close>.
\<close>

definition ex_error_sink :: handler where
  "ex_error_sink = HMemory \<lparr>formatter = None, hlevel = Some ERROR, capacity = 1000, buffer = []\<rparr>"

definition ex_filter_world :: world where
  "ex_filter_world =
     ex_world\<lparr>loggers := [(new_Logger ''multi'')\<lparr>llevel := DEBUG, handlers := [0]\<rparr>],
              hobjs := [ex_error_sink]\<rparr>"

definition ex_started :: LogRecord where
  "ex_started = \<lparr>name = ''multi'', level = INFO, message = ''started'', timestamp = 0,
                  extra = JObj []\<rparr>"


section \<open>A console handler over many records\<close>

text \<open>
  One handler emitting records one after the other; each \<open>emit\<close> starts from what the
  one before left, whether that one returned or threw.
\<close>

fun ConsoleHandler_emit_all ::
  "Formatter \<Rightarrow> ConsoleHandler \<Rightarrow> 'e env_scheme \<Rightarrow> LogRecord list
     \<Rightarrow> ConsoleHandler \<times> 'e env_scheme" where
  "ConsoleHandler_emit_all simple h e [] = (h, e)"
| "ConsoleHandler_emit_all simple h e (r # rs) =
     (case ConsoleHandler_emit simple h e r of
        ((h', e'), res) \<Rightarrow> ConsoleHandler_emit_all simple h' e' rs)"

text \<open>The formatter that a handler uses: the one set, or else the default one.\<close>

definition formatter_of :: "Formatter \<Rightarrow> 'a Handler_scheme \<Rightarrow> Formatter" where
  "formatter_of simple h = (case formatter h of None \<Rightarrow> simple | Some f \<Rightarrow> f)"

text \<open>The chunks written for the records whose formatting does not throw.\<close>

definition written_lines :: "Formatter \<Rightarrow> LogRecord list \<Rightarrow> string list" where
  "written_lines f rs =
     concat (map (\<lambda>r. case f r of Inl err \<Rightarrow> [] | Inr formatted \<Rightarrow> [formatted @ [CHR 0x0A]]) rs)"

definition ex_console :: ConsoleHandler where
  "ex_console = \<lparr>formatter = None, hlevel = None, stream = None\<rparr>"

definition ex_record :: "int \<Rightarrow> string \<Rightarrow> LogRecord" where
  "ex_record lv msg = \<lparr>name = ''app'', level = lv, message = msg, timestamp = 0, extra = JObj []\<rparr>"




text \<open>
  A handler that rotates at midnight, last rotated on January 1, and two records made
  one millisecond before and one millisecond after the midnight that ends January 2;
  the clock reads that midnight when the first record is emitted.
\<close>

definition ex_timed :: TimedRotatingFileHandler where
  "ex_timed =
     \<lparr>formatter = None, hlevel = None, filename = ''app.log'', mode = FlagA, file_stream = None,
      rwhen = ''midnight'', interval = 1, tbackupCount = 5, tmaxFiles = 100, lastRotation = 0\<rparr>"

definition ex_midnight_env :: env where
  "ex_midnight_env =
     \<lparr>files = [], stdout = [], stderr = [], clock = (\<lambda>n. 172800000), ticks = 0, rotated = []\<rparr>"

definition ex_before_midnight :: LogRecord where
  "ex_before_midnight = (ex_record INFO ''late'')\<lparr>timestamp := 172799999\<rparr>"

definition ex_after_midnight :: LogRecord where
  "ex_after_midnight = (ex_record INFO ''early'')\<lparr>timestamp := 172800001\<rparr>"

text \<open>The same with the clock reading noon of January 2.\<close>

definition ex_noon_env :: env where
  "ex_noon_env = ex_midnight_env\<lparr>clock := (\<lambda>n. 129600000)\<rparr>"

definition ex_first_emit :: "env \<Rightarrow> (TimedRotatingFileHandler \<times> env) \<times> error option" where
  "ex_first_emit e = TimedRotatingFileHandler_emit ex_dates ex_simple ex_timed e ex_before_midnight"

definition ex_second_emit :: "env \<Rightarrow> (TimedRotatingFileHandler \<times> env) \<times> error option" where
  "ex_second_emit e =
     TimedRotatingFileHandler_emit ex_dates ex_simple (fst (fst (ex_first_emit e)))
       (snd (fst (ex_first_emit e))) ex_after_midnight"

section \<open>A rotating file handler over many records\<close>


text \<open>
  A handler that rotates after ten bytes and keeps two backups, and one that is told to
  keep none; and a directory in which the current file already exists.
\<close>

definition ex_rotating :: "int \<Rightarrow> RotatingFileHandler" where
  "ex_rotating n =
     \<lparr>formatter = None, hlevel = None, filename = ''app.log'', mode = FlagA, file_stream = None,
      maxBytes = 10, backupCount = n, maxFiles = 100\<rparr>"

definition ex_disk_env :: env where
  "ex_disk_env =
     \<lparr>files = [(''app.log'', \<lparr>content = ''old'' @ [CHR 0x0A], mtime = 0\<rparr>)], stdout = [],
      stderr = [], clock = (\<lambda>n. 1000), ticks = 0, rotated = []\<rparr>"

section \<open>Frame lemmas\<close>

text \<open>No \<open>emit\<close> touches anything but the files, the streams and the clock.\<close>

lemma more_world:
  "env.more (w' :: world) = env.more w \<Longrightarrow>
     emit_calls w' = emit_calls w \<and> loggers w' = loggers w \<and> hobjs w' = hobjs w"
  by (cases w, cases w') simp

lemma stream_write_more: "env.more (stream_write s c e) = env.more e"
  by (simp add: stream_write_def split: std_stream.splits)

lemma ConsoleHandler_emit_more:
  "ConsoleHandler_emit simple h e r = ((h', e'), res) \<Longrightarrow> env.more e' = env.more e"
  by (auto simp: ConsoleHandler_emit_def Let_def stream_write_more split: prod.splits sum.splits)

lemma FileHandler_emit_more:
  "FileHandler_emit simple h e r = ((h', e'), res) \<Longrightarrow> env.more e' = env.more e"
  by (auto simp: FileHandler_emit_def FileHandler_openFile_def Let_def
           split: prod.splits sum.splits option.splits)

lemma RotatingFileHandler_emit_more:
  "RotatingFileHandler_emit simple h e r = ((h', e'), res) \<Longrightarrow> env.more e' = env.more e"
  by (auto simp: RotatingFileHandler_emit_def RotatingFileHandler_rotate_def Let_def
           dest!: FileHandler_emit_more split: prod.splits if_splits option.splits)

lemma TimedRotatingFileHandler_emit_more:
  "TimedRotatingFileHandler_emit D simple h e r = ((h', e'), res) \<Longrightarrow> env.more e' = env.more e"
  by (auto simp: TimedRotatingFileHandler_emit_def TimedRotatingFileHandler_rotate_def
                 new_Date_def Let_def
           dest!: FileHandler_emit_more split: prod.splits if_splits option.splits)

lemma emit_more: "emit D simple h e r = ((h', e'), res) \<Longrightarrow> env.more e' = env.more e"
  by (cases h)
     (auto dest: ConsoleHandler_emit_more FileHandler_emit_more RotatingFileHandler_emit_more
                 TimedRotatingFileHandler_emit_more
           split: prod.splits)

lemma emit_world:
  assumes "emit D simple h (w :: world) r = ((h', w'), res)"
  shows "emit_calls w' = emit_calls w" and "loggers w' = loggers w" and "hobjs w' = hobjs w"
  using more_world [OF emit_more [OF assms]] by simp_all

lemma console_error_world:
  "emit_calls (console_error s (w :: world)) = emit_calls w"
  "loggers (console_error s w) = loggers w"
  "hobjs (console_error s w) = hobjs w"
  by (simp_all add: console_error_def stream_write_def)

lemma call_emit_calls: "emit_calls (call_emit D simple w h r) = emit_calls w @ [(h, r)]"
  by (auto simp: call_emit_def Let_def console_error_world
           split: prod.splits option.splits dest: emit_world(1))

lemma call_emit_loggers: "loggers (call_emit D simple w h r) = loggers w"
  by (auto simp: call_emit_def Let_def console_error_world
           split: prod.splits option.splits dest: emit_world(2))

lemma send_to_handlers_calls:
  "emit_calls (send_to_handlers D simple w hs r) = emit_calls w @ map (\<lambda>h. (h, r)) hs"
  by (induction hs arbitrary: w) (simp_all add: call_emit_calls)

lemma send_to_handlers_loggers: "loggers (send_to_handlers D simple w hs r) = loggers w"
  by (induction hs arbitrary: w) (simp_all add: call_emit_loggers)

lemma make_record_fields:
  "make_record L lv msg args w = (r, args', w1) \<Longrightarrow>
     name r = lname L \<and> level r = lv \<and> emit_calls w1 = emit_calls w \<and>
     loggers w1 = loggers w \<and> hobjs w1 = hobjs w"
  by (auto simp: make_record_def new_Date_def split: prod.splits if_splits)

section \<open>The level gate of a logger\<close>

text \<open>
  Claim C2. On a logger with threshold \<open>llevel\<close>, a \<open>_log\<close> call at a level \<open>lv1\<close>
  strictly below the threshold returns at once and leaves the whole world as it was: the
  clock is not read, so no record is built, and no handler sees an \<open>emit\<close>. A call at a
  level \<open>lv2\<close> at or above the threshold is accepted: it builds one record at that level
  and calls \<open>emit\<close> with it once for every entry of the handler list, in order, before
  it goes on to the parent.
\<close>

theorem level_gate:
  assumes "this < length (loggers w)"
      and "lv1 < llevel (loggers w ! this)"
      and "llevel (loggers w ! this) \<le> lv2"
  shows "Logger_log D simple (Suc depth) w this lv1 msg args = Inr w \<and>
         (\<exists>record args' w1 w2.
            make_record (loggers w ! this) lv2 msg args w = (record, args', w1) \<and>
            level record = lv2 \<and>
            w2 = send_to_handlers D simple w1 (handlers (loggers w ! this)) record \<and>
            emit_calls w2 = emit_calls w @ map (\<lambda>h. (h, record)) (handlers (loggers w ! this)) \<and>
            Logger_log D simple (Suc depth) w this lv2 msg args =
              (if propagate (loggers w ! this)
               then (case parent (loggers w ! this) of
                       None \<Rightarrow> Inr w2
                     | Some p \<Rightarrow> Logger_log D simple depth w2 p lv2 msg args')
               else Inr w2))"
proof -
  obtain r args' w1
    where mk: "make_record (loggers w ! this) lv2 msg args w = (r, args', w1)"
    by (metis prod_cases3)
  have "level r = lv2" and "emit_calls w1 = emit_calls w"
    using make_record_fields [OF mk] by simp_all
  then show ?thesis
    using assms mk by (simp add: Let_def send_to_handlers_calls)
qed

theorem level_gate_witness:
  "0 < length (loggers ex_world) \<and> INFO < llevel (loggers ex_world ! 0) \<and>
   llevel (loggers ex_world ! 0) \<le> ERROR \<and>
   Logger_log ex_dates ex_simple (Suc 0) ex_world 0 INFO ''disk at %s'' [JNum 90] = Inr ex_world \<and>
   (\<exists>record args' w1 w2.
      make_record (loggers ex_world ! 0) ERROR ''disk at %s'' [JNum 90] ex_world = (record, args', w1) \<and>
      level record = ERROR \<and>
      w2 = send_to_handlers ex_dates ex_simple w1 (handlers (loggers ex_world ! 0)) record \<and>
      emit_calls w2 = emit_calls ex_world @ map (\<lambda>h. (h, record)) (handlers (loggers ex_world ! 0)) \<and>
      Logger_log ex_dates ex_simple (Suc 0) ex_world 0 ERROR ''disk at %s'' [JNum 90] =
        (if propagate (loggers ex_world ! 0)
         then (case parent (loggers ex_world ! 0) of
                 None \<Rightarrow> Inr w2
               | Some p \<Rightarrow> Logger_log ex_dates ex_simple 0 w2 p ERROR ''disk at %s'' args')
         else Inr w2))"
proof -
  have h1: "0 < length (loggers ex_world)"
    by (simp add: ex_world_def)
  have h2: "INFO < llevel (loggers ex_world ! 0)"
    by (simp add: ex_world_def new_Logger_def INFO_def WARNING_def)
  have h3: "llevel (loggers ex_world ! 0) \<le> ERROR"
    by (simp add: ex_world_def new_Logger_def ERROR_def WARNING_def)
  from level_gate [OF h1 h2 h3, where D = ex_dates and simple = ex_simple and depth = 0
                     and msg = "''disk at %s''" and args = "[JNum 90]"] h1 h2 h3
  show ?thesis by blast
qed

section \<open>The child cache\<close>

lemma getChild_again:
  assumes "this < length (loggers w)" and "Logger_getChild this nm w = (w1, c)"
  shows "Logger_getChild this nm w1 = (w1, c)"
  using assms
  by (auto simp: Logger_getChild_def Let_def nth_append AList.update_conv' split: option.splits)

lemma getChild_new:
  assumes "this < length (loggers w)" and "Logger_getChild this nm w = (w1, c)"
    and "map_of (children (loggers w ! this)) nm = None"
  shows "c = length (loggers w)" and "length (loggers w1) = Suc (length (loggers w))"
    and "loggers w1 ! c = (new_Logger (lname (loggers w ! this) @ ''.'' @ nm))
            \<lparr>parent := Some this, llevel := llevel (loggers w ! this), handlers := handlers (loggers w ! this)\<rparr>"
  using assms
  by (auto simp: Logger_getChild_def Let_def nth_append split: option.splits)

lemma update_logger_other:
  "c \<noteq> this \<Longrightarrow> loggers (update_logger this f w) ! c = loggers w ! c"
  by (simp add: update_logger_def)

text \<open>
  Claim C8. \<open>getChild\<close> is identity-stable: a second call with the same name returns
  the same logger and changes nothing. A child that had to be created is named
  \<open>parent.name + "." + name\<close>, has the parent's level of that moment, the parent as
  \<open>parent\<close>, and its own copy of the parent's handler list: \<open>addHandler\<close>,
  \<open>removeHandler\<close> and \<open>clearHandlers\<close> on the parent afterwards leave the child's
  list as it was copied.
\<close>

theorem getChild_identity_and_snapshot:
  assumes "this < length (loggers w)" and "Logger_getChild this nm w = (w1, c)"
  shows "Logger_getChild this nm w1 = (w1, c) \<and>
         (map_of (children (loggers w ! this)) nm = None \<longrightarrow>
            lname (loggers w1 ! c) = lname (loggers w ! this) @ ''.'' @ nm \<and>
            llevel (loggers w1 ! c) = llevel (loggers w ! this) \<and>
            handlers (loggers w1 ! c) = handlers (loggers w ! this) \<and>
            parent (loggers w1 ! c) = Some this \<and>
            (\<forall>h. handlers (loggers (Logger_addHandler this h w1) ! c) = handlers (loggers w ! this) \<and>
                 handlers (loggers (Logger_removeHandler this h w1) ! c) = handlers (loggers w ! this) \<and>
                 handlers (loggers (Logger_clearHandlers this w1) ! c) = handlers (loggers w ! this)))"
proof (intro conjI impI)
  show "Logger_getChild this nm w1 = (w1, c)"
    using assms by (rule getChild_again)
next
  assume fresh: "map_of (children (loggers w ! this)) nm = None"
  note new = getChild_new [OF assms fresh]
  have ne: "c \<noteq> this" using new(1) assms(1) by simp
  show "lname (loggers w1 ! c) = lname (loggers w ! this) @ ''.'' @ nm"
    and "llevel (loggers w1 ! c) = llevel (loggers w ! this)"
    and hs: "handlers (loggers w1 ! c) = handlers (loggers w ! this)"
    and "parent (loggers w1 ! c) = Some this"
    by (simp_all add: new(3) new_Logger_def)
  show "\<forall>h. handlers (loggers (Logger_addHandler this h w1) ! c) = handlers (loggers w ! this) \<and>
            handlers (loggers (Logger_removeHandler this h w1) ! c) = handlers (loggers w ! this) \<and>
            handlers (loggers (Logger_clearHandlers this w1) ! c) = handlers (loggers w ! this)"
    using ne hs
    by (simp add: Logger_addHandler_def Logger_removeHandler_def Logger_clearHandlers_def
                  update_logger_other)
qed

theorem getChild_identity_and_snapshot_witness:
  "1 < length (loggers ex_world) \<and>
   Logger_getChild 1 ''pool'' ex_world = (fst (Logger_getChild 1 ''pool'' ex_world), 2) \<and>
   map_of (children (loggers ex_world ! 1)) ''pool'' = None \<and>
   Logger_getChild 1 ''pool'' (fst (Logger_getChild 1 ''pool'' ex_world))
     = (fst (Logger_getChild 1 ''pool'' ex_world), 2) \<and>
   lname (loggers (fst (Logger_getChild 1 ''pool'' ex_world)) ! 2) = ''app.db.pool'' \<and>
   handlers (loggers (Logger_addHandler 1 0 (fst (Logger_getChild 1 ''pool'' ex_world))) ! 2) = []"
proof -
  have h1: "1 < length (loggers ex_world)"
    by (simp add: ex_world_def)
  have h2: "Logger_getChild 1 ''pool'' ex_world = (fst (Logger_getChild 1 ''pool'' ex_world), 2)"
    by (simp add: Logger_getChild_def ex_world_def new_Logger_def Let_def)
  have h3: "map_of (children (loggers ex_world ! 1)) ''pool'' = None"
    by (simp add: ex_world_def new_Logger_def)
  have n: "lname (loggers ex_world ! 1) @ ''.'' @ ''pool'' = ''app.db.pool''"
    and hs: "handlers (loggers ex_world ! 1) = []"
    by (simp_all add: ex_world_def new_Logger_def)
  from getChild_identity_and_snapshot [OF h1 h2] h1 h2 h3 n hs
  show ?thesis by metis
qed

text \<open>
  \<open>getChild\<close> keeps every parent below its child, so the worlds that \<open>new Logger\<close> and
  \<open>getChild\<close> build all satisfy \<open>parents_below\<close>.
\<close>

lemma parents_below_iff:
  "parents_below ls = (\<forall>l < length ls. \<forall>p. parent (ls ! l) = Some p \<longrightarrow> p < l)"
  unfolding parents_below_def list_all_iff
  by (force simp: in_set_enumerate_eq split: option.splits)

lemma getChild_parents_below:
  assumes "lg < length (loggers w)" and "parents_below (loggers w)"
  shows "parents_below (loggers (fst (Logger_getChild lg nm w)))"
proof (cases "map_of (children (loggers w ! lg)) nm")
  case (Some c)
  with assms show ?thesis by (simp add: Logger_getChild_def Let_def)
next
  case None
  let ?ls = "loggers w"
  have eq: "loggers (fst (Logger_getChild lg nm w))
              = ?ls[lg := (?ls ! lg)\<lparr>children := AList.update nm (length ?ls) (children (?ls ! lg))\<rparr>]
                @ [(new_Logger (lname (?ls ! lg) @ ''.'' @ nm))
                     \<lparr>parent := Some lg, llevel := llevel (?ls ! lg), handlers := handlers (?ls ! lg)\<rparr>]"
    using None by (simp add: Logger_getChild_def Let_def)
  show ?thesis
    unfolding eq parents_below_iff
  proof (intro allI impI)
    fix l p
    assume l: "l < length (?ls[lg := (?ls ! lg)\<lparr>children := AList.update nm (length ?ls) (children (?ls ! lg))\<rparr>]
                @ [(new_Logger (lname (?ls ! lg) @ ''.'' @ nm))
                     \<lparr>parent := Some lg, llevel := llevel (?ls ! lg), handlers := handlers (?ls ! lg)\<rparr>])"
      and p: "parent ((?ls[lg := (?ls ! lg)\<lparr>children := AList.update nm (length ?ls) (children (?ls ! lg))\<rparr>]
                @ [(new_Logger (lname (?ls ! lg) @ ''.'' @ nm))
                     \<lparr>parent := Some lg, llevel := llevel (?ls ! lg), handlers := handlers (?ls ! lg)\<rparr>]) ! l) = Some p"
    show "p < l"
    proof (cases "l < length ?ls")
      case True
      then have "parent (?ls ! l) = Some p"
        using p by (cases "l = lg") (simp_all add: nth_append)
      with assms(2) True show ?thesis by (simp add: parents_below_iff)
    next
      case False
      with l have "l = length ?ls" by simp
      with p assms(1) show ?thesis by (simp add: nth_append)
    qed
  qed
qed

section \<open>The walk to the parents\<close>

lemma parents_belowD:
  "parents_below ls \<Longrightarrow> l < length ls \<Longrightarrow> parent (ls ! l) = Some p \<Longrightarrow> p < l"
  unfolding parents_below_def list_all_iff
  by (force simp: in_set_enumerate_eq)


lemma log_total:
  "parents_below (loggers w) \<Longrightarrow> this < length (loggers w) \<Longrightarrow> this < depth \<Longrightarrow>
     \<exists>w'. Logger_log D simple depth w this lv msg args = Inr w'"
proof (induction depth arbitrary: w this args)
  case 0
  then show ?case by simp
next
  case (Suc depth)
  let ?L = "loggers w ! this"
  show ?case
  proof (cases "lv < llevel ?L")
    case True
    with Suc.prems show ?thesis by simp
  next
    case False
    obtain r args' w1 where mk: "make_record ?L lv msg args w = (r, args', w1)"
      by (metis prod_cases3)
    let ?w2 = "send_to_handlers D simple w1 (handlers ?L) r"
    have ls: "loggers ?w2 = loggers w"
      using make_record_fields [OF mk] by (simp add: send_to_handlers_loggers)
    show ?thesis
    proof (cases "propagate ?L \<and> parent ?L \<noteq> None")
      case True
      then obtain p where p: "parent ?L = Some p" by auto
      have "p < this" using parents_belowD [OF Suc.prems(1,2) p] .
      with Suc.prems have "p < length (loggers ?w2)" "p < depth" "parents_below (loggers ?w2)"
        by (simp_all add: ls)
      from Suc.IH [OF this(3,1,2)] obtain w' where
        "Logger_log D simple depth ?w2 p lv msg args' = Inr w'" by blast
      with True p False mk Suc.prems show ?thesis by (simp add: Let_def)
    next
      case False
      with \<open>\<not> lv < llevel ?L\<close> mk Suc.prems show ?thesis
        by (auto simp: Let_def split: option.splits)
    qed
  qed
qed

lemma count_list_concat:
  "count_list (concat xss) x = sum_list (map (\<lambda>xs. count_list xs x) xss)"
  by (induction xss) simp_all

lemma calls_to_length: "length (calls_to h cs) = count_list (map fst cs) h"
  by (induction cs) (auto simp: calls_to_def)

lemma calls_to_append: "calls_to h (xs @ ys) = calls_to h xs @ calls_to h ys"
  by (simp add: calls_to_def)

lemma dispatching_valid: "l \<in> set (dispatching ls depth t lv) \<Longrightarrow> l < length ls"
proof (induction depth arbitrary: t)
  case 0
  then show ?case by simp
next
  case (Suc depth)
  show ?case
  proof (cases "t < length ls \<and> \<not> lv < llevel (ls ! t)")
    case True
    with Suc.prems have "l = t \<or> (\<exists>p. l \<in> set (dispatching ls depth p lv))"
      by (cases "propagate (ls ! t)"; cases "parent (ls ! t)") (auto simp: Let_def)
    with True Suc.IH show ?thesis by blast
  next
    case False
    with Suc.prems show ?thesis
      by (cases "length ls \<le> t") (simp_all add: Let_def)
  qed
qed

text \<open>
  The trace of a whole \<open>_log\<close> call: the handler lists of the loggers of the chain, one
  after the other, each record at the level of the call and under the name of the logger
  that built it.
\<close>

lemma log_trace:
  "Logger_log D simple depth w this lv msg args = Inr w' \<Longrightarrow>
     loggers w' = loggers w \<and>
     (\<exists>new. emit_calls w' = emit_calls w @ new \<and>
        map fst new = concat (map (\<lambda>l. handlers (loggers w ! l)) (dispatching (loggers w) depth this lv)) \<and>
        (\<forall>(h, r) \<in> set new. level r = lv \<and>
            (\<exists>l \<in> set (dispatching (loggers w) depth this lv).
               h \<in> set (handlers (loggers w ! l)) \<and> name r = lname (loggers w ! l))))"
proof (induction depth arbitrary: w this args)
  case 0
  then show ?case by simp
next
  case (Suc depth)
  let ?L = "loggers w ! this"
  from Suc.prems have valid: "this < length (loggers w)"
    by (simp split: if_splits)
  show ?case
  proof (cases "lv < llevel ?L")
    case True
    with Suc.prems valid show ?thesis by simp
  next
    case False
    obtain r args' w1 where mk: "make_record ?L lv msg args w = (r, args', w1)"
      by (metis prod_cases3)
    let ?w2 = "send_to_handlers D simple w1 (handlers ?L) r"
    note f = make_record_fields [OF mk]
    have ls: "loggers ?w2 = loggers w"
      using f by (simp add: send_to_handlers_loggers)
    have cs: "emit_calls ?w2 = emit_calls w @ map (\<lambda>h. (h, r)) (handlers ?L)"
      using f by (simp add: send_to_handlers_calls)
    show ?thesis
    proof (cases "propagate ?L \<and> parent ?L \<noteq> None")
      case True
      then obtain p where p: "parent ?L = Some p" by auto
      from Suc.prems valid False mk True p
      have rec: "Logger_log D simple depth ?w2 p lv msg args' = Inr w'"
        by (simp add: Let_def)
      from Suc.IH [OF rec] obtain new where
        n1: "loggers w' = loggers ?w2" and
        n2: "emit_calls w' = emit_calls ?w2 @ new" and
        n3: "map fst new = concat (map (\<lambda>l. handlers (loggers ?w2 ! l)) (dispatching (loggers ?w2) depth p lv))" and
        n4: "\<forall>(h, r) \<in> set new. level r = lv \<and>
            (\<exists>l \<in> set (dispatching (loggers ?w2) depth p lv).
               h \<in> set (handlers (loggers ?w2 ! l)) \<and> name r = lname (loggers ?w2 ! l))"
        by blast
      have d: "dispatching (loggers w) (Suc depth) this lv = this # dispatching (loggers w) depth p lv"
        using valid False True p by (simp add: Let_def)
      let ?new = "map (\<lambda>h. (h, r)) (handlers ?L) @ new"
      have "emit_calls w' = emit_calls w @ ?new"
        using n2 cs by simp
      moreover have "map fst ?new = concat (map (\<lambda>l. handlers (loggers w ! l)) (dispatching (loggers w) (Suc depth) this lv))"
        using n3 by (simp add: d ls comp_def del: dispatching.simps)
      moreover have "\<forall>(h, r) \<in> set ?new. level r = lv \<and>
            (\<exists>l \<in> set (dispatching (loggers w) (Suc depth) this lv).
               h \<in> set (handlers (loggers w ! l)) \<and> name r = lname (loggers w ! l))"
        using n4 f by (auto simp: d ls simp del: dispatching.simps)
      ultimately show ?thesis using n1 ls by (intro conjI exI [of _ ?new]) simp_all
    next
      case nop: False
      from Suc.prems valid False mk nop have w': "w' = ?w2"
        by (auto simp: Let_def split: option.splits if_splits)
      have d: "dispatching (loggers w) (Suc depth) this lv = [this]"
        using valid False nop by (auto simp: Let_def split: option.splits)
      let ?new = "map (\<lambda>h. (h, r)) (handlers ?L)"
      have "emit_calls w' = emit_calls w @ ?new" using cs w' by simp
      moreover have "map fst ?new = concat (map (\<lambda>l. handlers (loggers w ! l)) (dispatching (loggers w) (Suc depth) this lv))"
        by (simp add: d comp_def del: dispatching.simps)
      moreover have "\<forall>(h, r) \<in> set ?new. level r = lv \<and>
            (\<exists>l \<in> set (dispatching (loggers w) (Suc depth) this lv).
               h \<in> set (handlers (loggers w ! l)) \<and> name r = lname (loggers w ! l))"
        using f by (auto simp: d simp del: dispatching.simps)
      ultimately show ?thesis using w' ls by (intro conjI exI [of _ ?new]) simp_all
    qed
  qed
qed

lemma dispatching_le:
  "parents_below ls \<Longrightarrow> l \<in> set (dispatching ls depth t lv) \<Longrightarrow> l \<le> t"
proof (induction depth arbitrary: t)
  case 0
  then show ?case by simp
next
  case (Suc depth)
  show ?case
  proof (cases "t < length ls \<and> \<not> lv < llevel (ls ! t)")
    case True
    with Suc.prems(2) have "l = t \<or> (\<exists>p. parent (ls ! t) = Some p \<and> l \<in> set (dispatching ls depth p lv))"
      by (cases "propagate (ls ! t)"; cases "parent (ls ! t)") (auto simp: Let_def)
    then show ?thesis
    proof
      assume "l = t" then show ?thesis by simp
    next
      assume "\<exists>p. parent (ls ! t) = Some p \<and> l \<in> set (dispatching ls depth p lv)"
      then obtain p where p: "parent (ls ! t) = Some p" and l: "l \<in> set (dispatching ls depth p lv)"
        by blast
      have "p < t" using parents_belowD [OF Suc.prems(1) _ p] True by simp
      moreover have "l \<le> p" using Suc.IH [OF Suc.prems(1) l] .
      ultimately show ?thesis by simp
    qed
  next
    case False
    with Suc.prems(2) show ?thesis
      by (cases "length ls \<le> t") (simp_all add: Let_def)
  qed
qed

lemma dispatching_distinct:
  "parents_below ls \<Longrightarrow> distinct (dispatching ls depth t lv)"
proof (induction depth arbitrary: t)
  case 0
  then show ?case by simp
next
  case (Suc depth)
  show ?case
  proof (cases "t < length ls \<and> \<not> lv < llevel (ls ! t) \<and> propagate (ls ! t) \<and> parent (ls ! t) \<noteq> None")
    case True
    then obtain p where p: "parent (ls ! t) = Some p" by auto
    have "p < t" using parents_belowD [OF Suc.prems _ p] True by simp
    then have "t \<notin> set (dispatching ls depth p lv)"
      using dispatching_le [OF Suc.prems, of t depth p lv] by auto
    moreover have "dispatching ls (Suc depth) t lv = t # dispatching ls depth p lv"
      using True p by (simp add: Let_def)
    ultimately show ?thesis using Suc.IH [OF Suc.prems] by simp
  next
    case False
    then have "dispatching ls (Suc depth) t lv = [] \<or> dispatching ls (Suc depth) t lv = [t]"
      by (cases "length ls \<le> t"; cases "parent (ls ! t)"; cases "propagate (ls ! t)";
          cases "lv < llevel (ls ! t)")
         (simp_all add: Let_def)
    then show ?thesis by (elim disjE) (simp_all del: dispatching.simps)
  qed
qed

lemma count_list_distinct:
  "distinct xs \<Longrightarrow> count_list xs a = (if a \<in> set xs then 1 else 0)"
  by (induction xs) auto

lemma count_only:
  assumes "\<forall>l \<in> set chain. l \<noteq> a \<longrightarrow> count_list (f l) h = 0"
      and "count_list (f a) h = 1"
  shows "sum_list (map (\<lambda>l. count_list (f l) h) chain) = count_list chain a"
  using assms(1) by (induction chain) (auto simp: assms(2))

section \<open>Propagation to the parent\<close>

text \<open>
  Claim C1, as the code has it. A \<open>_log\<close> call that passes the child's gate calls
  \<open>_log\<close> on the parent with the same level and message, and the parent filters by its
  own threshold again and builds its own record. So a handler attached to one logger \<open>a\<close>
  only, once, is given exactly one record when \<open>a\<close> is among the loggers that the chain
  of thresholds lets the call reach (\<open>dispatching\<close>), and none otherwise; that record
  carries the name of \<open>a\<close> and the level of the call. The call returns, the parents
  having been allocated before their children.
\<close>

theorem propagation_refilters:
  assumes wf: "parents_below (loggers w)" and c: "c < length (loggers w)" and d: "c < depth"
      and only: "\<forall>l < length (loggers w). h \<in> set (handlers (loggers w ! l)) \<longrightarrow> l = a"
      and once: "count_list (handlers (loggers w ! a)) h = 1"
  shows "\<exists>w' new.
           Logger_log D simple depth w c lv msg args = Inr w' \<and>
           emit_calls w' = emit_calls w @ new \<and>
           length (calls_to h new) = (if a \<in> set (dispatching (loggers w) depth c lv) then 1 else 0) \<and>
           (\<forall>r \<in> set (calls_to h new). name r = lname (loggers w ! a) \<and> level r = lv)"
proof -
  let ?chain = "dispatching (loggers w) depth c lv"
  from log_total [OF wf c d] obtain w' where
    ret: "Logger_log D simple depth w c lv msg args = Inr w'" by blast
  from log_trace [OF ret] obtain new where
    n1: "emit_calls w' = emit_calls w @ new" and
    n2: "map fst new = concat (map (\<lambda>l. handlers (loggers w ! l)) ?chain)" and
    n3: "\<forall>(h, r) \<in> set new. level r = lv \<and>
            (\<exists>l \<in> set ?chain. h \<in> set (handlers (loggers w ! l)) \<and> name r = lname (loggers w ! l))"
    by blast
  have zero: "\<forall>l \<in> set ?chain. l \<noteq> a \<longrightarrow> count_list (handlers (loggers w ! l)) h = 0"
    using only dispatching_valid by (metis count_list_0_iff)
  have "length (calls_to h new) = count_list (map fst new) h"
    by (rule calls_to_length)
  also have "\<dots> = sum_list (map (\<lambda>l. count_list (handlers (loggers w ! l)) h) ?chain)"
    by (simp add: n2 count_list_concat comp_def)
  also have "\<dots> = count_list ?chain a"
    using zero once by (rule count_only)
  also have "\<dots> = (if a \<in> set ?chain then 1 else 0)"
    using dispatching_distinct [OF wf, of depth c lv]
    by (simp add: count_list_distinct)
  finally have len: "length (calls_to h new) = (if a \<in> set ?chain then 1 else 0)" .
  have names: "\<forall>r \<in> set (calls_to h new). name r = lname (loggers w ! a) \<and> level r = lv"
  proof
    fix r assume "r \<in> set (calls_to h new)"
    then have "(h, r) \<in> set new" by (auto simp: calls_to_def)
    with n3 obtain l where "l \<in> set ?chain" "h \<in> set (handlers (loggers w ! l))"
      "name r = lname (loggers w ! l)" "level r = lv" by fastforce
    moreover from this(1,2) have "l = a" using only dispatching_valid by blast
    ultimately show "name r = lname (loggers w ! a) \<and> level r = lv" by simp
  qed
  from ret n1 len names show ?thesis by blast
qed

theorem propagation_refilters_witness:
  "parents_below (loggers ex_world) \<and> 1 < length (loggers ex_world) \<and> (1 :: nat) < 2 \<and>
   length (loggers ex_world) = 2 \<and> handlers (loggers ex_world ! 0) = [0] \<and>
   handlers (loggers ex_world ! 1) = [] \<and>
   count_list (handlers (loggers ex_world ! 0)) 0 = 1 \<and>
   dispatching (loggers ex_world) 2 1 ERROR = [1, 0] \<and>
   (\<exists>w' new.
      Logger_log ex_dates ex_simple 2 ex_world 1 ERROR ''down'' [] = Inr w' \<and>
      emit_calls w' = emit_calls ex_world @ new \<and>
      length (calls_to 0 new) = (if 0 \<in> set (dispatching (loggers ex_world) 2 1 ERROR) then 1 else 0) \<and>
      (\<forall>r \<in> set (calls_to 0 new). name r = lname (loggers ex_world ! 0) \<and> level r = ERROR))"
proof -
  have h1: "parents_below (loggers ex_world)"
    by (simp add: parents_below_def ex_world_def new_Logger_def)
  have h2: "1 < length (loggers ex_world)"
    by (simp add: ex_world_def)
  have h3: "(1 :: nat) < 2"
    by simp
  have h4: "\<forall>l < length (loggers ex_world). 0 \<in> set (handlers (loggers ex_world ! l)) \<longrightarrow> l = 0"
    by (simp add: ex_world_def new_Logger_def less_Suc_eq)
  have h5: "count_list (handlers (loggers ex_world ! 0)) 0 = 1"
    by (simp add: ex_world_def new_Logger_def)
  have h6: "dispatching (loggers ex_world) 2 1 ERROR = [1, 0]"
    by (simp add: numeral_2_eq_2 ex_world_def new_Logger_def DEBUG_def WARNING_def ERROR_def
                  Let_def)
  have h7: "length (loggers ex_world) = 2" "handlers (loggers ex_world ! 0) = [0]"
    "handlers (loggers ex_world ! 1) = []"
    by (simp_all add: ex_world_def new_Logger_def)
  from propagation_refilters [OF h1 h2 h3 h4 h5, where D = ex_dates and simple = ex_simple
                                and lv = ERROR and msg = "''down''" and args = "[]"]
       h1 h2 h3 h5 h6 h7
  show ?thesis by blast
qed

text \<open>
  Claim C1 as stated fails: the child \<open>app.db\<close> (threshold \<open>DEBUG\<close>) propagates to
  \<open>app\<close> (threshold \<open>WARNING\<close>), whose memory handler is attached to \<open>app\<close> only. An
  \<open>INFO\<close> call on the child passes the child's gate, and the handler is given nothing:
  all that the call changes is the clock reading for the child's record.
\<close>

theorem propagation_counterexample:
  "propagate (loggers ex_world ! 1) \<and> parent (loggers ex_world ! 1) = Some 0 \<and>
   llevel (loggers ex_world ! 1) \<le> INFO \<and>
   handlers (loggers ex_world ! 0) = [0] \<and> handlers (loggers ex_world ! 1) = [] \<and>
   Logger_log ex_dates ex_simple 2 ex_world 1 INFO ''ready'' [] = Inr (ex_world\<lparr>ticks := 1\<rparr>) \<and>
   calls_to 0 (emit_calls (ex_world\<lparr>ticks := 1\<rparr>)) = [] \<and>
   hobjs (ex_world\<lparr>ticks := 1\<rparr>) = [ex_memory]"
  by (simp add: numeral_2_eq_2 ex_world_def new_Logger_def make_record_def new_Date_def now_def
                INFO_def DEBUG_def WARNING_def Let_def calls_to_def)

section \<open>The level filter of a handler\<close>

text \<open>
  Claim C3 against the code. \<open>Logger._log\<close> calls \<open>handler.emit(record)\<close>, not
  \<open>handler.handle(record)\<close>, so the level filter of a handler is never consulted. The
  error sink below has level \<open>ERROR\<close>; \<open>Handler.filter\<close> rejects an \<open>INFO\<close> record and
  \<open>Handler.handle\<close> drops it, and yet an \<open>INFO\<close> call on the logger puts the record into
  the sink's buffer.
\<close>

theorem dispatch_skips_handler_filter:
  "\<not> Handler_filter ex_error_sink ex_started \<and>
   Handler_handle ex_dates ex_simple ex_error_sink ex_filter_world ex_started
     = (ex_error_sink, ex_filter_world) \<and>
   Logger_log ex_dates ex_simple 1 ex_filter_world 0 INFO ''started'' []
     = Inr (ex_filter_world
              \<lparr>ticks := 1,
               hobjs := [HMemory \<lparr>formatter = None, hlevel = Some ERROR, capacity = 1000,
                                  buffer = [ex_started]\<rparr>],
               emit_calls := [(0, ex_started)]\<rparr>)"
  by (simp add: ex_filter_world_def ex_world_def ex_error_sink_def ex_started_def new_Logger_def
                Handler_filter_def Handler_handle_def make_record_def new_Date_def now_def
                call_emit_def MemoryHandler_emit_def INFO_def DEBUG_def ERROR_def Let_def)

section \<open>A failing handler\<close>















section \<open>The stream of a console handler\<close>

lemma ConsoleHandler_emit_step:
  assumes "ConsoleHandler_emit simple h e r = ((h', e'), res)"
  shows "stream h' = Some (case stream h of None \<Rightarrow> (if level r \<ge> 3 then Stderr else Stdout) | Some s \<Rightarrow> s)"
    and "formatter_of simple h' = formatter_of simple h"
    and "e' = (case formatter_of simple h r of
                 Inl err \<Rightarrow> e
               | Inr formatted \<Rightarrow>
                   stream_write (case stream h of None \<Rightarrow> (if level r \<ge> 3 then Stderr else Stdout) | Some s \<Rightarrow> s)
                     (formatted @ [CHR 0x0A]) e)"
  using assms
  by (auto simp: ConsoleHandler_emit_def Handler_format_def formatter_of_def Let_def
           split: option.splits sum.splits)

lemma ConsoleHandler_latched:
  assumes "stream h = Some s" and "ConsoleHandler_emit_all simple h e rs = (h', e')"
  shows "stream h' = Some s \<and>
         (case s of
            Stdout \<Rightarrow> stdout e' = stdout e @ written_lines (formatter_of simple h) rs \<and> stderr e' = stderr e
          | Stderr \<Rightarrow> stderr e' = stderr e @ written_lines (formatter_of simple h) rs \<and> stdout e' = stdout e)"
  using assms
proof (induction rs arbitrary: h e)
  case Nil
  then show ?case by (simp add: written_lines_def split: std_stream.splits)
next
  case (Cons r rs)
  obtain h1 e1 res where one: "ConsoleHandler_emit simple h e r = ((h1, e1), res)"
    by (metis surj_pair)
  note st = ConsoleHandler_emit_step [OF one]
  have s1: "stream h1 = Some s" using st(1) Cons.prems(1) by simp
  have rest: "ConsoleHandler_emit_all simple h1 e1 rs = (h', e')"
    using Cons.prems(2) one by simp
  from Cons.IH [OF s1 rest] st(2,3) Cons.prems(1) show ?case
    by (cases s; cases "formatter_of simple h r")
       (simp_all add: written_lines_def stream_write_def)
qed

text \<open>
  Claim C10. A \<open>ConsoleHandler\<close> built without a stream takes its stream from the first
  record it emits, standard error if that record's level is at least 3 and standard
  output otherwise, and keeps it: every later record, whatever its level, is written to
  that stream, and the other stream is never written to.
\<close>

theorem console_stream_latched:
  assumes "stream h = None" and "ConsoleHandler_emit_all simple h e (r # rs) = (h', e')"
  shows "stream h' = Some (if level r \<ge> 3 then Stderr else Stdout) \<and>
         (if level r \<ge> 3
          then stderr e' = stderr e @ written_lines (formatter_of simple h) (r # rs) \<and> stdout e' = stdout e
          else stdout e' = stdout e @ written_lines (formatter_of simple h) (r # rs) \<and> stderr e' = stderr e)"
proof -
  obtain h1 e1 res where one: "ConsoleHandler_emit simple h e r = ((h1, e1), res)"
    by (metis surj_pair)
  note st = ConsoleHandler_emit_step [OF one]
  let ?s = "if level r \<ge> 3 then Stderr else Stdout"
  have s1: "stream h1 = Some ?s" using st(1) assms(1) by simp
  have rest: "ConsoleHandler_emit_all simple h1 e1 rs = (h', e')"
    using assms(2) one by simp
  from ConsoleHandler_latched [OF s1 rest] st(2,3) assms(1) show ?thesis
    by (cases "formatter_of simple h r")
       (simp_all add: written_lines_def stream_write_def split: if_splits)
qed

theorem console_stream_latched_witness:
  "stream ex_console = None \<and>
   ConsoleHandler_emit_all ex_simple ex_console ex_world
       [ex_record INFO ''up'', ex_record ERROR ''down'']
     = (fst (ConsoleHandler_emit_all ex_simple ex_console ex_world
               [ex_record INFO ''up'', ex_record ERROR ''down'']),
        snd (ConsoleHandler_emit_all ex_simple ex_console ex_world
               [ex_record INFO ''up'', ex_record ERROR ''down''])) \<and>
   \<not> level (ex_record INFO ''up'') \<ge> 3 \<and> level (ex_record ERROR ''down'') \<ge> 3 \<and>
   stream (fst (ConsoleHandler_emit_all ex_simple ex_console ex_world
                  [ex_record INFO ''up'', ex_record ERROR ''down''])) = Some Stdout \<and>
   stdout (snd (ConsoleHandler_emit_all ex_simple ex_console ex_world
                  [ex_record INFO ''up'', ex_record ERROR ''down'']))
     = stdout ex_world
         @ written_lines (formatter_of ex_simple ex_console)
             [ex_record INFO ''up'', ex_record ERROR ''down''] \<and>
   stderr (snd (ConsoleHandler_emit_all ex_simple ex_console ex_world
                  [ex_record INFO ''up'', ex_record ERROR ''down''])) = stderr ex_world \<and>
   written_lines (formatter_of ex_simple ex_console)
       [ex_record INFO ''up'', ex_record ERROR ''down'']
     = [''INFO up'' @ [CHR 0x0A], ''ERROR down'' @ [CHR 0x0A]]"
proof -
  let ?run = "ConsoleHandler_emit_all ex_simple ex_console ex_world
                [ex_record INFO ''up'', ex_record ERROR ''down'']"
  have h1: "stream ex_console = None"
    by (simp add: ex_console_def)
  have h2: "?run = (fst ?run, snd ?run)"
    by simp
  have lv: "\<not> level (ex_record INFO ''up'') \<ge> 3" "level (ex_record ERROR ''down'') \<ge> 3"
    by (simp_all add: ex_record_def INFO_def ERROR_def)
  have wl: "written_lines (formatter_of ex_simple ex_console)
              [ex_record INFO ''up'', ex_record ERROR ''down'']
            = [''INFO up'' @ [CHR 0x0A], ''ERROR down'' @ [CHR 0x0A]]"
    by (simp add: written_lines_def formatter_of_def ex_console_def ex_simple_def ex_record_def
                  getLogLevelName_def DEBUG_def INFO_def WARNING_def ERROR_def)
  from console_stream_latched [OF h1 h2] lv h1 wl show ?thesis
    by (simp del: ConsoleHandler_emit_all.simps)
qed

section \<open>The JSON line\<close>




lemma getLogLevelName_inj:
  "0 \<le> a \<Longrightarrow> a \<le> 4 \<Longrightarrow> 0 \<le> b \<Longrightarrow> b \<le> 4 \<Longrightarrow> getLogLevelName a = getLogLevelName b \<Longrightarrow> a = b"
  by (auto simp: getLogLevelName_def DEBUG_def INFO_def WARNING_def ERROR_def CRITICAL_def split: if_splits)




section \<open>Rotation by time\<close>

lemma FileHandler_emit_timed_fields:
  assumes "FileHandler_emit simple (h :: TimedRotatingFileHandler) e r = ((h', e'), res)"
  shows "lastRotation h' = lastRotation h" and "rwhen h' = rwhen h" and "filename h' = filename h"
    and "rotated e' = rotated e"
  using assms
  by (auto simp: FileHandler_emit_def FileHandler_openFile_def Handler_format_def Let_def
           split: option.splits sum.splits prod.splits)

lemma TimedRotatingFileHandler_emit_step:
  assumes "TimedRotatingFileHandler_emit D simple (h :: TimedRotatingFileHandler) e r = ((h', e'), res)"
  shows "rwhen h' = rwhen h" and "filename h' = filename h"
    and "shouldRotate D h (timestamp r) \<Longrightarrow>
           lastRotation h' = now e \<and> rotated e' = rotated e @ [filename h]"
    and "\<not> shouldRotate D h (timestamp r) \<Longrightarrow>
           lastRotation h' = lastRotation h \<and> rotated e' = rotated e"
  using assms
  by (auto simp: TimedRotatingFileHandler_emit_def TimedRotatingFileHandler_rotate_def
                 new_Date_def now_def Let_def
           split: if_splits prod.splits dest: FileHandler_emit_timed_fields)

text \<open>
  Claim C7, as the code has it. With \<open>when = "midnight"\<close>, \<open>shouldRotate\<close> is true iff
  the calendar date of the record's timestamp differs from that of \<open>lastRotation\<close>; with
  \<open>"hour"\<close> and \<open>"minute"\<close> iff the time since \<open>lastRotation\<close> is at least \<open>interval\<close>
  hours or minutes. \<open>rotate\<close> resets \<open>lastRotation\<close> to the wall clock, not to the
  record's timestamp. So for two emissions in a row: provided that a rotation at the first
  one reads the clock on the calendar date of the first record, there is exactly one
  rotation between the two when their dates differ and none when they agree.
\<close>

theorem timed_rotation:
  assumes e1: "TimedRotatingFileHandler_emit D simple (h :: TimedRotatingFileHandler) e r1 = ((h1, e1), res1)"
      and e2: "TimedRotatingFileHandler_emit D simple h1 e1 r2 = ((h2, e2), res2)"
      and mid: "rwhen h = ''midnight''"
      and sync: "shouldRotate D h (timestamp r1) \<longrightarrow>
                   toDateString D (now e) = toDateString D (timestamp r1)"
  shows "shouldRotate D h (timestamp r1)
           = (toDateString D (timestamp r1) \<noteq> toDateString D (lastRotation h)) \<and>
         (\<forall>g :: TimedRotatingFileHandler. \<forall>ts.
            (rwhen g = ''hour'' \<longrightarrow>
               shouldRotate D g ts = (ts - lastRotation g \<ge> interval g * 3600000)) \<and>
            (rwhen g = ''minute'' \<longrightarrow>
               shouldRotate D g ts = (ts - lastRotation g \<ge> interval g * 60000))) \<and>
         (toDateString D (timestamp r1) \<noteq> toDateString D (timestamp r2) \<longrightarrow>
            rotated e2 = rotated e1 @ [filename h]) \<and>
         (toDateString D (timestamp r1) = toDateString D (timestamp r2) \<longrightarrow>
            rotated e2 = rotated e1)"
proof -
  note s1 = TimedRotatingFileHandler_emit_step [OF e1]
  note s2 = TimedRotatingFileHandler_emit_step [OF e2]
  have a: "shouldRotate D h (timestamp r1)
             = (toDateString D (timestamp r1) \<noteq> toDateString D (lastRotation h))"
    using mid by (simp add: shouldRotate_def)
  have b: "\<forall>g :: TimedRotatingFileHandler. \<forall>ts.
            (rwhen g = ''hour'' \<longrightarrow>
               shouldRotate D g ts = (ts - lastRotation g \<ge> interval g * 3600000)) \<and>
            (rwhen g = ''minute'' \<longrightarrow>
               shouldRotate D g ts = (ts - lastRotation g \<ge> interval g * 60000))"
    by (simp add: shouldRotate_def mult.commute)
  have date1: "toDateString D (lastRotation h1) = toDateString D (timestamp r1)"
  proof (cases "shouldRotate D h (timestamp r1)")
    case True
    with s1(3) sync show ?thesis by simp
  next
    case False
    with s1(4) a show ?thesis by simp
  qed
  have mid1: "rwhen h1 = ''midnight''" using s1(1) mid by simp
  have c: "shouldRotate D h1 (timestamp r2)
             = (toDateString D (timestamp r2) \<noteq> toDateString D (timestamp r1))"
    using mid1 date1 by (simp add: shouldRotate_def)
  have "toDateString D (timestamp r1) \<noteq> toDateString D (timestamp r2) \<longrightarrow>
            rotated e2 = rotated e1 @ [filename h]"
    using s2(3) c s1(2) by auto
  moreover have "toDateString D (timestamp r1) = toDateString D (timestamp r2) \<longrightarrow>
            rotated e2 = rotated e1"
    using s2(4) c by auto
  ultimately show ?thesis using a b by blast
qed

theorem timed_rotation_witness:
  "TimedRotatingFileHandler_emit ex_dates ex_simple ex_timed ex_noon_env ex_before_midnight
     = ((fst (fst (ex_first_emit ex_noon_env)), snd (fst (ex_first_emit ex_noon_env))),
        snd (ex_first_emit ex_noon_env)) \<and>
   TimedRotatingFileHandler_emit ex_dates ex_simple (fst (fst (ex_first_emit ex_noon_env)))
       (snd (fst (ex_first_emit ex_noon_env))) ex_after_midnight
     = ((fst (fst (ex_second_emit ex_noon_env)), snd (fst (ex_second_emit ex_noon_env))),
        snd (ex_second_emit ex_noon_env)) \<and>
   rwhen ex_timed = ''midnight'' \<and>
   shouldRotate ex_dates ex_timed (timestamp ex_before_midnight) \<and>
   toDateString ex_dates (now ex_noon_env) = toDateString ex_dates (timestamp ex_before_midnight) \<and>
   toDateString ex_dates (timestamp ex_before_midnight)
     \<noteq> toDateString ex_dates (timestamp ex_after_midnight) \<and>
   rotated (snd (fst (ex_second_emit ex_noon_env)))
     = rotated (snd (fst (ex_first_emit ex_noon_env))) @ [filename ex_timed]"
proof -
  have h1: "TimedRotatingFileHandler_emit ex_dates ex_simple ex_timed ex_noon_env ex_before_midnight
     = ((fst (fst (ex_first_emit ex_noon_env)), snd (fst (ex_first_emit ex_noon_env))),
        snd (ex_first_emit ex_noon_env))"
    by (simp add: ex_first_emit_def)
  have h2: "TimedRotatingFileHandler_emit ex_dates ex_simple (fst (fst (ex_first_emit ex_noon_env)))
       (snd (fst (ex_first_emit ex_noon_env))) ex_after_midnight
     = ((fst (fst (ex_second_emit ex_noon_env)), snd (fst (ex_second_emit ex_noon_env))),
        snd (ex_second_emit ex_noon_env))"
    by (simp add: ex_second_emit_def)
  have h3: "rwhen ex_timed = ''midnight''"
    by (simp add: ex_timed_def)
  have d0: "shouldRotate ex_dates ex_timed (timestamp ex_before_midnight)"
    by (simp add: shouldRotate_def ex_timed_def ex_dates_def ex_before_midnight_def ex_record_def
                  String_of_int_def digits.simps digit_def)
  have d1: "toDateString ex_dates (now ex_noon_env)
              = toDateString ex_dates (timestamp ex_before_midnight)"
    by (simp add: ex_dates_def ex_noon_env_def ex_midnight_env_def now_def ex_before_midnight_def
                  ex_record_def)
  have d2: "toDateString ex_dates (timestamp ex_before_midnight)
              \<noteq> toDateString ex_dates (timestamp ex_after_midnight)"
    by (simp add: ex_dates_def ex_before_midnight_def ex_after_midnight_def ex_record_def
                  String_of_int_def digits.simps digit_def)
  have h4: "shouldRotate ex_dates ex_timed (timestamp ex_before_midnight) \<longrightarrow>
              toDateString ex_dates (now ex_noon_env)
                = toDateString ex_dates (timestamp ex_before_midnight)"
    using d1 by simp
  from timed_rotation [OF h1 h2 h3 h4] h1 h2 h3 d0 d1 d2
  show ?thesis by blast
qed

text \<open>
  Claim C7 as stated fails when the clock passes midnight between the making of a record
  and its rotation. The first record is made on January 2 and meets a handler last
  rotated on January 1: \<open>rotate\<close> runs and reads the clock, which has reached January 3.
  The second record, of January 3, then finds \<open>lastRotation\<close> on its own date: no
  rotation separates the two records, and both end up in the same file.
\<close>

theorem timed_rotation_counterexample:
  "rwhen ex_timed = ''midnight'' \<and>
   toDateString ex_dates (timestamp ex_before_midnight) = ''Jan 2 1970'' \<and>
   toDateString ex_dates (timestamp ex_after_midnight) = ''Jan 3 1970'' \<and>
   rotated (snd (fst (ex_first_emit ex_midnight_env))) = [''app.log''] \<and>
   rotated (snd (fst (ex_second_emit ex_midnight_env))) = [''app.log''] \<and>
   map content (map snd (files (snd (fst (ex_second_emit ex_midnight_env)))))
     = [''INFO late'' @ [CHR 0x0A] @ ''INFO early'' @ [CHR 0x0A]]"
  by (simp add: ex_second_emit_def ex_first_emit_def ex_timed_def ex_midnight_env_def
                ex_before_midnight_def ex_after_midnight_def ex_record_def ex_dates_def
                ex_simple_def TimedRotatingFileHandler_emit_def
                TimedRotatingFileHandler_rotate_def shouldRotate_def
                TimedRotatingFileHandler_removeOldBackups_def remove_oldest_def
                getMatchingFiles_def existsSync_def new_Date_def now_def FileHandler_emit_def
                FileHandler_openFile_def Handler_format_def createWriteStream_def
                write_file_def String_of_int_def digits.simps digit_def getLogLevelName_def
                INFO_def DEBUG_def Let_def)

section \<open>Decimal numerals are unambiguous\<close>






lemma backup_path_not_current: "backup_path f i \<noteq> f"
  by (simp add: backup_path_def)

section \<open>Rotation by size\<close>

lemma existsSync_unlinkSync: "existsSync (unlinkSync fs p) q = (q \<noteq> p \<and> existsSync fs q)"
  by (auto simp: existsSync_def unlinkSync_def delete_conv')

lemma existsSync_renameSync:
  "existsSync (renameSync fs src dst) q
     = (if existsSync fs src then q = dst \<or> (q \<noteq> src \<and> existsSync fs q) else existsSync fs q)"
  by (auto simp: existsSync_def renameSync_def update_conv' delete_conv' split: option.splits)






lemma rotate_backups_current:
  "existsSync (rotate_backups f i fs) f = existsSync fs f"
proof (induction f i fs rule: rotate_backups.induct)
  case (1 fname i fs)
  show ?case
  proof (cases "i > 0")
    case True
    from "1.IH" [OF True] True show ?thesis
      using backup_path_not_current [of fname i] backup_path_not_current [of fname "i + 1"]
      by (subst rotate_backups.simps)
         (auto simp: Let_def existsSync_renameSync existsSync_unlinkSync)
  next
    case False
    then show ?thesis by (subst rotate_backups.simps) simp
  qed
qed













text \<open>
  Claim C6 against the code. \<open>rotate\<close> moves the current file to \<open>path.1\<close> whatever
  \<open>backupCount\<close> is; with \<open>backupCount = 0\<close> the loop over the backups does nothing and
  the rotation still leaves the numbered backup \<open>app.log.1\<close> behind, with the old
  content.
\<close>

theorem rotate_without_backups_keeps_one:
  "backupCount (ex_rotating 0) = 0 \<and>
   files ex_disk_env = [(''app.log'', \<lparr>content = ''old'' @ [CHR 0x0A], mtime = 0\<rparr>)] \<and>
   files (snd (RotatingFileHandler_rotate (ex_rotating 0) ex_disk_env))
     = [(''app.log.1'', \<lparr>content = ''old'' @ [CHR 0x0A], mtime = 0\<rparr>)]"
  by (simp add: ex_rotating_def ex_disk_env_def RotatingFileHandler_rotate_def
                RotatingFileHandler_cleanupOldFiles_def remove_oldest_def getMatchingFiles_def
                rotate_backups.simps existsSync_def renameSync_def backup_path_def
                String_of_int_def digits.simps digit_def Let_def)

end
